theory Spec2Isabelle
  imports Main "HOL-Library.Multiset"
begin

section \<open>gozip: parallel extraction of the zip archives under a directory\<close>

text \<open>
  The program is one Go file, \<^verbatim>\<open>gozip.go\<close>, with three functions:
  \<^verbatim>\<open>extractZip\<close> (one archive into one directory), \<^verbatim>\<open>worker\<close>
  (the loop of one consumer goroutine) and \<^verbatim>\<open>main\<close> (whose producer goroutine
  walks the directory tree). Each is embedded below as a function on an explicit
  world: the file system, the set of open handles, and the chronological trace of
  what the goroutine printed and what it sent or received on its channels.

  What the Go standard library and the operating system do (\<^verbatim>\<open>strings\<close>,
  \<^verbatim>\<open>path/filepath\<close>, \<^verbatim>\<open>os\<close>, \<^verbatim>\<open>archive/zip\<close>, \<^verbatim>\<open>io\<close>) is not in the
  repository; it is modelled here from the documented behaviour on Unix, without
  symbolic links and without permission bits being enforced.
\<close>

subsection \<open>Errors\<close>

text \<open>
  A Go \<^verbatim>\<open>error\<close> value; \<^verbatim>\<open>nil\<close> is \<open>None\<close> of \<open>error option\<close>.
  \<open>PathError\<close> is what the \<^verbatim>\<open>os\<close> package returns (an \<^verbatim>\<open>*fs.PathError\<close>
  wrapping an errno); \<open>ErrFormat\<close>, \<open>ErrAlgorithm\<close> and \<open>ErrChecksum\<close> are the sentinels
  of \<^verbatim>\<open>archive/zip\<close>; \<open>ErrUnexpectedEOF\<close> is \<^verbatim>\<open>io.ErrUnexpectedEOF\<close>; \<open>SkipDir\<close> and
  \<open>SkipAll\<close> are the sentinels of \<^verbatim>\<open>path/filepath\<close>; \<open>ErrOther\<close> is any other error (a
  short write, ...).
\<close>

datatype errno = ENOENT | ENOTDIR | EISDIR | EEXIST | EACCES | ENOSPC | EIO

datatype error =
    PathError errno
  | ErrFormat
  | ErrAlgorithm
  | ErrChecksum
  | ErrUnexpectedEOF
  | SkipDir
  | SkipAll
  | ErrOther string

text \<open>\<^verbatim>\<open>os.IsNotExist(err)\<close>: true only of an error that wraps \<open>ENOENT\<close>; false of \<^verbatim>\<open>nil\<close>.\<close>

fun IsNotExist :: "error option \<Rightarrow> bool" where
  "IsNotExist (Some (PathError ENOENT)) = True"
| "IsNotExist _ = False"

subsection \<open>Package strings\<close>

type_synonym path = string

definition HasSuffix :: "string \<Rightarrow> string \<Rightarrow> bool" where
  "HasSuffix s suffix \<longleftrightarrow>
     length suffix \<le> length s \<and> drop (length s - length suffix) s = suffix"

definition TrimSuffix :: "string \<Rightarrow> string \<Rightarrow> string" where
  "TrimSuffix s suffix =
     (if HasSuffix s suffix then take (length s - length suffix) s else s)"

subsection \<open>Package path/filepath: Clean, Join, Dir\<close>

text \<open>
  A path is split at every separator into its elements; \<open>clean_elems\<close> applies the
  rules of \<^verbatim>\<open>filepath.Clean\<close> to them: an empty element and \<^verbatim>\<open>.\<close> are dropped, an
  inner \<^verbatim>\<open>..\<close> removes the element before it, a \<^verbatim>\<open>..\<close> at the start of a rooted
  path is dropped, and one at the start of a relative path is kept. The second
  argument is the output so far, last element first.
\<close>

fun elements :: "string \<Rightarrow> string \<Rightarrow> string list" where
  "elements cur [] = [rev cur]"
| "elements cur (c # cs) =
     (if c = CHR ''/'' then rev cur # elements [] cs else elements (c # cur) cs)"

fun clean_elems :: "bool \<Rightarrow> string list \<Rightarrow> string list \<Rightarrow> string list" where
  "clean_elems rooted out [] = rev out"
| "clean_elems rooted out (e # es) =
     (if e = [] \<or> e = ''.'' then clean_elems rooted out es
      else if e = ''..'' then
        (case out of
           [] \<Rightarrow> if rooted then clean_elems rooted [] es
                 else clean_elems rooted [''..''] es
         | x # xs \<Rightarrow> if x = ''..'' then clean_elems rooted (''..'' # out) es
                     else clean_elems rooted xs es)
      else clean_elems rooted (e # out) es)"

fun join_elems :: "string list \<Rightarrow> string" where
  "join_elems [] = []"
| "join_elems [e] = e"
| "join_elems (e # es) = e @ ''/'' @ join_elems es"

definition rooted :: "path \<Rightarrow> bool" where
  "rooted p \<longleftrightarrow> (case p of [] \<Rightarrow> False | c # _ \<Rightarrow> c = CHR ''/'')"

definition Clean :: "path \<Rightarrow> path" where
  "Clean p =
     (if p = [] then ''.''
      else let s = (if rooted p then ''/'' else []) @
                   join_elems (clean_elems (rooted p) [] (elements [] p))
           in if s = [] then ''.'' else s)"

text \<open>\<^verbatim>\<open>filepath.Join(a, b)\<close>: empty elements are ignored, the rest is joined with the
  separator and cleaned; nothing else is done to \<open>b\<close>.\<close>

definition Join :: "path \<Rightarrow> path \<Rightarrow> path" where
  "Join a b =
     (if a \<noteq> [] then Clean (a @ ''/'' @ b)
      else if b \<noteq> [] then Clean b
      else [])"

text \<open>\<^verbatim>\<open>filepath.Dir(p)\<close>: everything up to and including the last separator, cleaned.\<close>

definition Dir :: "path \<Rightarrow> path" where
  "Dir p = Clean (rev (dropWhile (\<lambda>c. c \<noteq> CHR ''/'') (rev p)))"

subsection \<open>Archives and the file system\<close>

text \<open>
  One entry of an archive's directory, a \<^verbatim>\<open>*zip.File\<close>: its stored name, whether
  \<^verbatim>\<open>f.FileInfo().IsDir()\<close> holds, its permission bits \<^verbatim>\<open>f.Mode()\<close> and its
  bytes. The last two fields say how the input and output on the entry end in the
  run at hand: \<open>open_fault\<close> is the error of \<^verbatim>\<open>f.Open()\<close>, if it fails (an
  unsupported compression method, say), and \<open>copy_fault = Some (n, e)\<close> says that
  \<^verbatim>\<open>io.Copy\<close> fails with \<open>e\<close> after \<open>n\<close> bytes have reached the output (a
  checksum mismatch, a read error, a full disk).
\<close>

record entry =
  Name :: string
  IsDir :: bool
  Mode :: nat
  payload :: "nat list"
  open_fault :: "error option"
  copy_fault :: "(nat \<times> error) option"

text \<open>
  The bytes of a regular file are kept abstract in one respect, what
  \<^verbatim>\<open>zip.OpenReader\<close> makes of them. \<open>Zip es\<close> stands for the bytes of an archive that it
  accepts, with directory \<open>es\<close>. The other two are files that are no well-formed
  archive: \<open>Raw bs\<close> has no end-of-central-directory record (an empty file, a text
  file), and the library rejects it with \<^verbatim>\<open>zip.ErrFormat\<close>; \<open>Damaged bs\<close> has that
  record, but its central directory is cut short (a header or a name runs past the end
  of the file), and the library rejects it with \<^verbatim>\<open>io.ErrUnexpectedEOF\<close>, the error of
  the read that came up short.
\<close>

datatype content = Raw "nat list" | Damaged "nat list" | Zip "entry list"

datatype node = Directory nat | File nat content

text \<open>
  A file name is resolved lexically to a key: the elements of the cleaned path, after
  the marker \<^verbatim>\<open>/\<close> when the path is rooted. The key \<open>[]\<close> is the working
  directory. A file system maps keys to nodes.

  This is where the model is coarser than the system. A \<^verbatim>\<open>..\<close> inside a name is
  removed with the element before it, whether or not that element exists; a leading
  \<^verbatim>\<open>..\<close> of a relative name is kept as an element, so it is a name like any other
  under the working directory; and the working directory has no name of its own. Two
  names of one file (\<^verbatim>\<open>a/x\<close> and \<^verbatim>\<open>../c/a/x\<close> in a working directory called
  \<^verbatim>\<open>c\<close>) therefore have two keys. Below, keys are compared only for cleaned names
  without \<^verbatim>\<open>..\<close> under one working directory, where two keys are two files.
\<close>

type_synonym key = "string list"

type_synonym fs = "key \<rightharpoonup> node"

definition path_key :: "path \<Rightarrow> key" where
  "path_key p =
     (if rooted p then [''/''] else []) @ clean_elems (rooted p) [] (elements [] p)"

text \<open>Name resolution: every proper prefix of the key must be a directory.\<close>

fun resolve :: "fs \<Rightarrow> key \<Rightarrow> key \<Rightarrow> errno + node" where
  "resolve fs pre [] = (case fs pre of None \<Rightarrow> Inl ENOENT | Some n \<Rightarrow> Inr n)"
| "resolve fs pre (c # cs) =
     (case fs pre of
        None \<Rightarrow> Inl ENOENT
      | Some (File _ _) \<Rightarrow> Inl ENOTDIR
      | Some (Directory _) \<Rightarrow> resolve fs (pre @ [c]) cs)"

definition lookup :: "fs \<Rightarrow> key \<Rightarrow> errno + node" where
  "lookup fs k =
     (case k of
        [] \<Rightarrow> resolve fs [] []
      | c # cs \<Rightarrow> if c = ''/'' then resolve fs [''/''] cs else resolve fs [] k)"

text \<open>The system call \<^verbatim>\<open>mkdir\<close>.\<close>

definition sys_mkdir :: "fs \<Rightarrow> key \<Rightarrow> nat \<Rightarrow> errno option \<times> fs" where
  "sys_mkdir fs k perm =
     (case lookup fs k of
        Inr _ \<Rightarrow> (Some EEXIST, fs)
      | Inl _ \<Rightarrow>
          if k = [] \<or> k = [''/''] then (Some ENOENT, fs)
          else (case lookup fs (butlast k) of
                  Inl e \<Rightarrow> (Some e, fs)
                | Inr (File _ _) \<Rightarrow> (Some ENOTDIR, fs)
                | Inr (Directory _) \<Rightarrow> (None, fs(k \<mapsto> Directory perm))))"

text \<open>
  \<^verbatim>\<open>os.MkdirAll\<close> on a key: nothing to do for a directory, \<open>ENOTDIR\<close> for a file;
  otherwise the parent first, then \<^verbatim>\<open>mkdir\<close>, whose failure is forgiven when the
  directory is there after all. Directories made before a failure stay.
\<close>

fun mkdir_all :: "fs \<Rightarrow> key \<Rightarrow> nat \<Rightarrow> errno option \<times> fs" where
  "mkdir_all fs k perm =
     (case lookup fs k of
        Inr (Directory _) \<Rightarrow> (None, fs)
      | Inr (File _ _) \<Rightarrow> (Some ENOTDIR, fs)
      | Inl _ \<Rightarrow>
          if k = [] \<or> k = [''/''] then sys_mkdir fs k perm
          else (case mkdir_all fs (butlast k) perm of
                  (Some e, fs') \<Rightarrow> (Some e, fs')
                | (None, fs') \<Rightarrow>
                    (case sys_mkdir fs' k perm of
                       (None, fs'') \<Rightarrow> (None, fs'')
                     | (Some e, fs'') \<Rightarrow>
                         (case lookup fs'' k of
                            Inr (Directory _) \<Rightarrow> (None, fs'')
                          | _ \<Rightarrow> (Some e, fs'')))))"

declare mkdir_all.simps [simp del]

subsection \<open>The world of one goroutine\<close>

datatype handle = ZipReader path | OutFile key | EntryReader string

datatype event =
    Print string
  | Recv path
  | SendPath path
  | SendErr error
  | ClosePaths
  | WgDone

record world =
  files :: fs
  opened :: "handle multiset"
  trace :: "event list"

definition emit :: "world \<Rightarrow> event \<Rightarrow> world" where
  "emit w ev = w\<lparr>trace := trace w @ [ev]\<rparr>"

definition acquire :: "world \<Rightarrow> handle \<Rightarrow> world" where
  "acquire w h = w\<lparr>opened := add_mset h (opened w)\<rparr>"

definition Close :: "world \<Rightarrow> handle \<Rightarrow> world" where
  "Close w h = w\<lparr>opened := opened w - {#h#}\<rparr>"

subsection \<open>Packages os, archive/zip and io\<close>

text \<open>The empty file name is refused by every system call with \<open>ENOENT\<close>.\<close>

definition os_Stat :: "world \<Rightarrow> path \<Rightarrow> error option" where
  "os_Stat w p =
     (if p = [] then Some (PathError ENOENT)
      else case lookup (files w) (path_key p) of
             Inl e \<Rightarrow> Some (PathError e)
           | Inr _ \<Rightarrow> None)"

definition os_MkdirAll :: "world \<Rightarrow> path \<Rightarrow> nat \<Rightarrow> error option \<times> world" where
  "os_MkdirAll w p perm =
     (if p = [] then (Some (PathError ENOENT), w)
      else case mkdir_all (files w) (path_key p) perm of
             (r, fs') \<Rightarrow> (map_option PathError r, w\<lparr>files := fs'\<rparr>))"

text \<open>\<^verbatim>\<open>os.OpenFile(p, O_WRONLY|O_CREATE|O_TRUNC, perm)\<close>: an existing regular file is
  emptied and keeps its mode, a missing one is created empty in an existing
  directory.\<close>

definition os_OpenFile :: "world \<Rightarrow> path \<Rightarrow> nat \<Rightarrow> (error + handle) \<times> world" where
  "os_OpenFile w p perm =
     (let k = path_key p in
      if p = [] then (Inl (PathError ENOENT), w)
      else if k = [] \<or> k = [''/''] then (Inl (PathError EISDIR), w)
      else case lookup (files w) (butlast k) of
             Inl e \<Rightarrow> (Inl (PathError e), w)
           | Inr (File _ _) \<Rightarrow> (Inl (PathError ENOTDIR), w)
           | Inr (Directory _) \<Rightarrow>
               (case files w k of
                  Some (Directory _) \<Rightarrow> (Inl (PathError EISDIR), w)
                | Some (File m _) \<Rightarrow>
                    (Inr (OutFile k),
                     acquire (w\<lparr>files := (files w)(k \<mapsto> File m (Raw []))\<rparr>) (OutFile k))
                | None \<Rightarrow>
                    (Inr (OutFile k),
                     acquire (w\<lparr>files := (files w)(k \<mapsto> File perm (Raw []))\<rparr>) (OutFile k))))"

text \<open>\<^verbatim>\<open>zip.OpenReader\<close>: the error of opening the file, \<^verbatim>\<open>ErrFormat\<close> or
  \<^verbatim>\<open>io.ErrUnexpectedEOF\<close> for bytes that are no well-formed archive, or the reader with
  the archive's entries.\<close>

definition zip_OpenReader :: "world \<Rightarrow> path \<Rightarrow> (error + entry list) \<times> world" where
  "zip_OpenReader w p =
     (if p = [] then (Inl (PathError ENOENT), w)
      else case lookup (files w) (path_key p) of
             Inl e \<Rightarrow> (Inl (PathError e), w)
           | Inr (Directory _) \<Rightarrow> (Inl (PathError EISDIR), w)
           | Inr (File _ (Raw _)) \<Rightarrow> (Inl ErrFormat, w)
           | Inr (File _ (Damaged _)) \<Rightarrow> (Inl ErrUnexpectedEOF, w)
           | Inr (File _ (Zip es)) \<Rightarrow> (Inr es, acquire w (ZipReader p)))"

definition entry_Open :: "world \<Rightarrow> entry \<Rightarrow> (error + handle) \<times> world" where
  "entry_Open w f =
     (case open_fault f of
        Some e \<Rightarrow> (Inl e, w)
      | None \<Rightarrow> (Inr (EntryReader (Name f)), acquire w (EntryReader (Name f))))"

text \<open>Writing to an open output file appends to its bytes.\<close>

definition append_file :: "fs \<Rightarrow> key \<Rightarrow> nat list \<Rightarrow> fs" where
  "append_file fs k bs =
     (case fs k of
        Some (File m (Raw old)) \<Rightarrow> fs(k \<mapsto> File m (Raw (old @ bs)))
      | _ \<Rightarrow> fs)"

definition io_Copy :: "world \<Rightarrow> handle \<Rightarrow> entry \<Rightarrow> error option \<times> world" where
  "io_Copy w out f =
     (case out of
        OutFile k \<Rightarrow>
          (case copy_fault f of
             None \<Rightarrow> (None, w\<lparr>files := append_file (files w) k (payload f)\<rparr>)
           | Some (n, e) \<Rightarrow>
               (Some e, w\<lparr>files := append_file (files w) k (take n (payload f))\<rparr>))
      | _ \<Rightarrow> (Some (ErrOther ''invalid argument''), w))"

subsection \<open>extractZip\<close>

text \<open>
  The body of the loop over \<^verbatim>\<open>r.File\<close> for one entry. The result \<open>None\<close> is the
  end of the iteration (also by \<^verbatim>\<open>continue\<close>), \<open>Some err\<close> is \<^verbatim>\<open>return err\<close>.
  The error of \<^verbatim>\<open>MkdirAll\<close> for a directory entry is dropped, as in the source.
  \<open>ModePerm\<close> is \<^verbatim>\<open>os.ModePerm\<close>, octal 777.
\<close>

definition ModePerm :: nat where
  "ModePerm = 511"

definition extract_entry :: "path \<Rightarrow> world \<Rightarrow> entry \<Rightarrow> error option \<times> world" where
  "extract_entry destDir w f =
     (let fpath = Join destDir (Name f) in
      if IsDir f then (None, snd (os_MkdirAll w fpath ModePerm))
      else
        case os_MkdirAll w (Dir fpath) ModePerm of
          (Some err, w1) \<Rightarrow> (Some err, w1)
        | (None, w1) \<Rightarrow>
            (case os_OpenFile w1 fpath (Mode f) of
               (Inl err, w2) \<Rightarrow> (Some err, w2)
             | (Inr outFile, w2) \<Rightarrow>
                 (case entry_Open w2 f of
                    (Inl err, w3) \<Rightarrow> (Some err, Close w3 outFile)
                  | (Inr rc, w3) \<Rightarrow>
                      (case io_Copy w3 outFile f of
                         (err, w4) \<Rightarrow> (err, Close (Close w4 outFile) rc)))))"

fun extract_entries :: "path \<Rightarrow> world \<Rightarrow> entry list \<Rightarrow> error option \<times> world" where
  "extract_entries destDir w [] = (None, w)"
| "extract_entries destDir w (f # rest) =
     (case extract_entry destDir w f of
        (Some err, w') \<Rightarrow> (Some err, w')
      | (None, w') \<Rightarrow> extract_entries destDir w' rest)"

definition invalid_zip_notice :: "path \<Rightarrow> string" where
  "invalid_zip_notice zipPath =
     ''Error: '' @ zipPath @ '' is not a valid zip file and will be skipped.'' @ [CHR 0x0A]"

text \<open>
  \<^verbatim>\<open>extractZip(zipPath, destDir)\<close>. The deferred \<^verbatim>\<open>r.Close()\<close> runs on every return
  after the reader was opened. The error of the first \<^verbatim>\<open>MkdirAll\<close> (mode octal 755)
  is dropped, as in the source.
\<close>

definition extractZip :: "world \<Rightarrow> path \<Rightarrow> path \<Rightarrow> error option \<times> world" where
  "extractZip w zipPath destDir =
     (case zip_OpenReader w zipPath of
        (Inl err, w1) \<Rightarrow>
          if err = ErrFormat then (None, emit w1 (Print (invalid_zip_notice zipPath)))
          else (Some err, w1)
      | (Inr r_File, w1) \<Rightarrow>
          (case extract_entries destDir (snd (os_MkdirAll w1 destDir 493)) r_File of
             (res, w3) \<Rightarrow> (res, Close w3 (ZipReader zipPath))))"

subsection \<open>worker\<close>

definition extracting_notice :: "path \<Rightarrow> string" where
  "extracting_notice path = ''Extracting '' @ path @ ''...'' @ [CHR 0x0A]"

definition skipping_notice :: "path \<Rightarrow> string" where
  "skipping_notice destDir =
     ''Directory '' @ destDir @ '' already exists, skipping...'' @ [CHR 0x0A]"

text \<open>
  The body of the worker's loop for one received path. \<open>Some err\<close> means that the
  error was sent on \<^verbatim>\<open>errChan\<close> and the function returns.
\<close>

definition worker_task :: "world \<Rightarrow> path \<Rightarrow> error option \<times> world" where
  "worker_task w path =
     (let destDir = TrimSuffix path ''.zip'' in
      if IsNotExist (os_Stat w destDir) then
        (case extractZip (emit w (Print (extracting_notice path))) path destDir of
           (Some err, w') \<Rightarrow> (Some err, emit w' (SendErr err))
         | (None, w') \<Rightarrow> (None, w'))
      else (None, emit w (Print (skipping_notice destDir))))"

text \<open>
  \<^verbatim>\<open>for path := range pathsChan\<close>: the list is what the channel would deliver to this
  worker before it is closed and drained, in order. The loop returns the world and
  the paths it has not received.
\<close>

fun worker_loop :: "world \<Rightarrow> path list \<Rightarrow> world \<times> path list" where
  "worker_loop w [] = (w, [])"
| "worker_loop w (path # rest) =
     (case worker_task (emit w (Recv path)) path of
        (Some err, w') \<Rightarrow> (w', rest)
      | (None, w') \<Rightarrow> worker_loop w' rest)"

text \<open>The deferred \<^verbatim>\<open>wg.Done()\<close> is the last thing the worker does.\<close>

definition worker :: "world \<Rightarrow> path list \<Rightarrow> world \<times> path list" where
  "worker w pathsChan =
     (case worker_loop w pathsChan of (w', rest) \<Rightarrow> (emit w' WgDone, rest))"

subsection \<open>The producer goroutine of main\<close>

text \<open>
  What the traversal finds under the start directory: a file that is no directory, a
  directory with its entries in the order \<^verbatim>\<open>readDirNames\<close> returns them, a directory
  whose names cannot be read, or a name whose \<^verbatim>\<open>lstat\<close> fails.
\<close>

datatype ftree =
    Regular
  | Folder "(string \<times> ftree) list"
  | Unreadable errno
  | Broken errno

text \<open>
  The function literal passed to \<^verbatim>\<open>filepath.Walk\<close>. Its \<open>info\<close> is \<open>None\<close> for
  \<^verbatim>\<open>nil\<close> and otherwise holds \<^verbatim>\<open>info.IsDir()\<close>. \<^verbatim>\<open>Walk\<close> never passes a
  \<^verbatim>\<open>nil\<close> info with a \<^verbatim>\<open>nil\<close> error; the source would dereference \<^verbatim>\<open>nil\<close> there,
  which the last case stands for.
\<close>

type_synonym walkfunc = "world \<Rightarrow> path \<Rightarrow> bool option \<Rightarrow> error option \<Rightarrow> error option \<times> world"

definition walkFn :: walkfunc where
  "walkFn w path info err =
     (case err of
        Some e \<Rightarrow> (Some e, emit w (SendErr e))
      | None \<Rightarrow>
          (case info of
             Some isdir \<Rightarrow>
               if \<not> isdir \<and> HasSuffix path ''.zip'' then (None, emit w (SendPath path))
               else (None, w)
           | None \<Rightarrow> (Some (ErrOther ''nil pointer dereference''), w)))"

text \<open>
  \<^verbatim>\<open>filepath.Walk\<close> of the standard library, for any callback: \<open>walk\<close> is called on a
  name whose \<^verbatim>\<open>lstat\<close> succeeded, \<open>walk_names\<close> runs through the names of a directory.
  An error of the callback ends the walk, except \<^verbatim>\<open>SkipDir\<close> where the library
  forgives it.
\<close>

fun is_dir :: "ftree \<Rightarrow> bool" where
  "is_dir Regular = False"
| "is_dir (Folder _) = True"
| "is_dir (Unreadable _) = True"
| "is_dir (Broken _) = False"

fun walk :: "walkfunc \<Rightarrow> path \<Rightarrow> ftree \<Rightarrow> world \<Rightarrow> error option \<times> world"
  and walk_names :: "walkfunc \<Rightarrow> path \<Rightarrow> (string \<times> ftree) list \<Rightarrow> world \<Rightarrow> error option \<times> world"
where
  "walk fn path Regular w = fn w path (Some False) None"
| "walk fn path (Unreadable e) w = fn w path (Some True) (Some (PathError e))"
| "walk fn path (Broken e) w = fn w path None (Some (PathError e))"
| "walk fn path (Folder names) w =
     (case fn w path (Some True) None of
        (Some err1, w') \<Rightarrow> (Some err1, w')
      | (None, w') \<Rightarrow> walk_names fn path names w')"
| "walk_names fn path [] w = (None, w)"
| "walk_names fn path ((name, Broken e) # rest) w =
     (case fn w (Join path name) None (Some (PathError e)) of
        (Some err, w') \<Rightarrow>
          if err \<noteq> SkipDir then (Some err, w') else walk_names fn path rest w'
      | (None, w') \<Rightarrow> walk_names fn path rest w')"
| "walk_names fn path ((name, t) # rest) w =
     (case walk fn (Join path name) t w of
        (Some err, w') \<Rightarrow>
          if \<not> is_dir t \<or> err \<noteq> SkipDir then (Some err, w')
          else walk_names fn path rest w'
      | (None, w') \<Rightarrow> walk_names fn path rest w')"

definition Walk :: "walkfunc \<Rightarrow> path \<Rightarrow> ftree \<Rightarrow> world \<Rightarrow> error option \<times> world" where
  "Walk fn root t w =
     (case walk fn root t w of
        (Some err, w') \<Rightarrow>
          if err = SkipDir \<or> err = SkipAll then (None, w') else (Some err, w')
      | (None, w') \<Rightarrow> (None, w'))"

text \<open>The goroutine: walk, drop the result of \<^verbatim>\<open>Walk\<close>, close the channel of paths.\<close>

definition producer :: "world \<Rightarrow> path \<Rightarrow> ftree \<Rightarrow> world" where
  "producer w startDir t = emit (snd (Walk walkFn startDir t w)) ClosePaths"

subsection \<open>Notions used in the statements\<close>

text \<open>The paths a goroutine received, in order, among the events of a trace.\<close>

definition received :: "event list \<Rightarrow> path list" where
  "received evs = concat (map (\<lambda>ev. case ev of Recv p \<Rightarrow> [p] | _ \<Rightarrow> []) evs)"

text \<open>The key \<open>k\<close> is the directory with key \<open>d\<close> or lies in the tree under it.\<close>

definition below :: "key \<Rightarrow> key \<Rightarrow> bool" where
  "below d k \<longleftrightarrow> take (length d) k = d"

text \<open>The path names a directory that name resolution reaches.\<close>

definition is_directory :: "world \<Rightarrow> path \<Rightarrow> bool" where
  "is_directory w p \<longleftrightarrow>
     p \<noteq> [] \<and> (case lookup (files w) (path_key p) of Inr (Directory _) \<Rightarrow> True | _ \<Rightarrow> False)"

fun is_SendPath :: "event \<Rightarrow> bool" where
  "is_SendPath (SendPath _) = True"
| "is_SendPath _ = False"

text \<open>The first file-system error the traversal meets in the tree, depth first: a
  name whose \<^verbatim>\<open>lstat\<close> fails or a directory that cannot be read.\<close>

fun first_err :: "ftree \<Rightarrow> errno option"
  and first_err_names :: "(string \<times> ftree) list \<Rightarrow> errno option"
where
  "first_err Regular = None"
| "first_err (Folder names) = first_err_names names"
| "first_err (Unreadable e) = Some e"
| "first_err (Broken e) = Some e"
| "first_err_names [] = None"
| "first_err_names ((name, t) # rest) =
     (case first_err t of Some e \<Rightarrow> Some e | None \<Rightarrow> first_err_names rest)"

text \<open>
  The shape of a walk with the callback of \<^verbatim>\<open>main\<close> from world \<open>w\<close>: it sends
  paths only, and then, exactly when it fails, the error it returns.
\<close>

definition walked :: "error option \<times> world \<Rightarrow> world \<Rightarrow> errno option \<Rightarrow> bool" where
  "walked res w failure \<longleftrightarrow>
     (\<exists>sends. (\<forall>ev \<in> set sends. \<exists>p. ev = SendPath p) \<and>
        fst res = map_option PathError failure \<and>
        trace (snd res) =
          trace w @ sends @ (case failure of None \<Rightarrow> [] | Some e \<Rightarrow> [SendErr (PathError e)]))"

subsection \<open>Concrete runs\<close>

definition plain_file :: "string \<Rightarrow> nat list \<Rightarrow> entry" where
  "plain_file name bytes =
     \<lparr>Name = name, IsDir = False, Mode = 420, payload = bytes,
      open_fault = None, copy_fault = None\<rparr>"

text \<open>A working directory with a directory \<^verbatim>\<open>x\<close> beside \<^verbatim>\<open>x.zip\<close>, a regular file
  \<^verbatim>\<open>f\<close>, and \<^verbatim>\<open>bad.zip\<close>, which is no archive.\<close>

definition tidy_world :: world where
  "tidy_world =
     \<lparr>files = map_of
        [([], Directory 493),
         ([''x''], Directory 493),
         ([''x.zip''], File 420 (Zip [])),
         ([''f''], File 420 (Raw [1, 2, 3])),
         ([''bad.zip''], File 420 (Raw [1, 2, 3]))],
      opened = {#}, trace = []\<rparr>"

text \<open>A working directory with \<^verbatim>\<open>cut.zip\<close>, whose central directory is cut short, and
  the empty archive \<^verbatim>\<open>x.zip\<close>.\<close>

definition cut_world :: world where
  "cut_world =
     \<lparr>files = map_of
        [([], Directory 493),
         ([''cut.zip''], File 420 (Damaged [80, 75, 1, 2, 80, 75, 5, 6])),
         ([''x.zip''], File 420 (Zip []))],
      opened = {#}, trace = []\<rparr>"

text \<open>A tree whose second name is a directory that cannot be read.\<close>

definition broken_tree :: ftree where
  "broken_tree =
     Folder [(''a.zip'', Regular), (''b'', Unreadable EACCES), (''f.zip'', Regular)]"

text \<open>An entry whose stored checksum is wrong: all its bytes are copied, and then the
  reader reports \<^verbatim>\<open>zip.ErrChecksum\<close>.\<close>

definition corrupt_file :: "string \<Rightarrow> nat list \<Rightarrow> entry" where
  "corrupt_file name bytes =
     \<lparr>Name = name, IsDir = False, Mode = 420, payload = bytes,
      open_fault = None, copy_fault = Some (length bytes, ErrChecksum)\<rparr>"

text \<open>\<^verbatim>\<open>d.zip\<close> holds three files, the second corrupt.\<close>

definition faulty_world :: world where
  "faulty_world =
     \<lparr>files = map_of
        [([], Directory 493),
         ([''d.zip''], File 420 (Zip
            [plain_file ''a.txt'' [104, 105],
             corrupt_file ''b.txt'' [1, 2, 3],
             plain_file ''c.txt'' [7]]))],
      opened = {#}, trace = []\<rparr>"

text \<open>The start directory is itself an archive, and its name is just \<^verbatim>\<open>.zip\<close>.\<close>

definition dot_world :: world where
  "dot_world =
     \<lparr>files = map_of
        [([], Directory 493),
         ([''.zip''], File 420 (Zip [plain_file ''a.txt'' [104, 105]]))],
      opened = {#}, trace = []\<rparr>"

text \<open>An archive with the file \<^verbatim>\<open>a/b.txt\<close>, holding \<^verbatim>\<open>hi\<close>, and the empty directory
  \<^verbatim>\<open>c/\<close>.\<close>

definition sample_world :: world where
  "sample_world =
     \<lparr>files = map_of
        [([], Directory 493),
         ([''s.zip''], File 420 (Zip
            [plain_file ''a/b.txt'' [104, 105],
             \<lparr>Name = ''c/'', IsDir = True, Mode = 493, payload = [],
              open_fault = None, copy_fault = None\<rparr>]))],
      opened = {#}, trace = []\<rparr>"

text \<open>A tree that the traversal walks without error.\<close>

definition clean_tree :: ftree where
  "clean_tree =
     Folder [(''a.zip'', Regular), (''b'', Folder [(''c.zip'', Regular), (''n.txt'', Regular)])]"

text \<open>An archive with an entry named \<^verbatim>\<open>../evil.txt\<close>.\<close>

definition slip_world :: world where
  "slip_world =
     \<lparr>files = map_of
        [([], Directory 493),
         ([''a.zip''], File 420 (Zip [plain_file ''../evil.txt'' [66]]))],
      opened = {#}, trace = []\<rparr>"

section \<open>Basic facts\<close>

lemma TrimSuffix_append: "TrimSuffix (base @ suffix) suffix = base"
  by (simp add: TrimSuffix_def HasSuffix_def)

lemma IsNotExist_iff: "IsNotExist r \<longleftrightarrow> r = Some (PathError ENOENT)"
  by (cases r rule: IsNotExist.cases) simp_all

lemma emit_simps [simp]:
  "trace (emit w ev) = trace w @ [ev]"
  "opened (emit w ev) = opened w"
  "files (emit w ev) = files w"
  by (simp_all add: emit_def)

lemma Close_simps [simp]:
  "trace (Close w h) = trace w"
  "opened (Close w h) = opened w - {#h#}"
  "files (Close w h) = files w"
  by (simp_all add: Close_def)

subsection \<open>What each library call does to the handles and to the trace\<close>

lemma os_MkdirAll_keeps [simp]:
  "opened (snd (os_MkdirAll w p perm)) = opened w"
  "trace (snd (os_MkdirAll w p perm)) = trace w"
  by (simp_all add: os_MkdirAll_def split: prod.splits)

lemma os_OpenFile_keeps:
  assumes "os_OpenFile w p perm = (r, w')"
  shows "opened w' = (case r of Inl _ \<Rightarrow> opened w | Inr h \<Rightarrow> add_mset h (opened w))"
    and "trace w' = trace w"
  using assms
  by (auto simp: os_OpenFile_def Let_def acquire_def
      split: if_splits sum.splits node.splits option.splits)

lemma entry_Open_keeps:
  assumes "entry_Open w f = (r, w')"
  shows "opened w' = (case r of Inl _ \<Rightarrow> opened w | Inr h \<Rightarrow> add_mset h (opened w))"
    and "trace w' = trace w"
    and "files w' = files w"
  using assms by (auto simp: entry_Open_def acquire_def split: option.splits)

lemma io_Copy_keeps:
  assumes "io_Copy w out f = (r, w')"
  shows "opened w' = opened w" and "trace w' = trace w"
  using assms by (auto simp: io_Copy_def split: handle.splits option.splits)

lemma zip_OpenReader_keeps:
  assumes "zip_OpenReader w p = (r, w')"
  shows "opened w' = (case r of Inl _ \<Rightarrow> opened w | Inr _ \<Rightarrow> add_mset (ZipReader p) (opened w))"
    and "trace w' = trace w"
  using assms
  by (auto simp: zip_OpenReader_def acquire_def
      split: if_splits sum.splits node.splits content.splits)

lemma zip_OpenReader_error_world:
  "zip_OpenReader w p = (Inl err, w') \<Longrightarrow> w' = w"
  by (auto simp: zip_OpenReader_def split: if_splits sum.splits node.splits content.splits)

text \<open>One iteration of the loop over the entries leaves the open handles and the
  trace as it found them, whichever way it ends.\<close>

lemma extract_entry_keeps:
  "opened (snd (extract_entry destDir w f)) = opened w \<and>
   trace (snd (extract_entry destDir w f)) = trace w"
proof (cases "IsDir f")
  case True
  then show ?thesis by (simp add: extract_entry_def)
next
  case False
  obtain r1 w1 where m: "os_MkdirAll w (Dir (Join destDir (Name f))) ModePerm = (r1, w1)"
    by (cases "os_MkdirAll w (Dir (Join destDir (Name f))) ModePerm")
  have o1: "opened w1 = opened w" "trace w1 = trace w"
    using os_MkdirAll_keeps [of w "Dir (Join destDir (Name f))" ModePerm] m by simp_all
  obtain r2 w2 where f2: "os_OpenFile w1 (Join destDir (Name f)) (Mode f) = (r2, w2)"
    by (cases "os_OpenFile w1 (Join destDir (Name f)) (Mode f)")
  note o2 = os_OpenFile_keeps [OF f2]
  obtain r3 w3 where f3: "entry_Open w2 f = (r3, w3)"
    by (cases "entry_Open w2 f")
  note o3 = entry_Open_keeps(1,2) [OF f3]
  show ?thesis
  proof (cases r1)
    case (Some e)
    with False m o1 show ?thesis by (simp add: extract_entry_def)
  next
    case None
    show ?thesis
    proof (cases r2)
      case (Inl e)
      with False m None f2 o1 o2 show ?thesis by (simp add: extract_entry_def)
    next
      case (Inr outFile)
      show ?thesis
      proof (cases r3)
        case (Inl e)
        with False m None f2 Inr f3 o1 o2 o3 show ?thesis
          by (simp add: extract_entry_def)
      next
        case (Inr rc)
        obtain r4 w4 where f4: "io_Copy w3 outFile f = (r4, w4)"
          by (cases "io_Copy w3 outFile f")
        note o4 = io_Copy_keeps [OF f4]
        from False m None f2 \<open>r2 = Inr outFile\<close> f3 Inr f4 o1 o2 o3 o4 show ?thesis
          by (simp add: extract_entry_def)
      qed
    qed
  qed
qed

lemma extract_entries_keeps:
  "opened (snd (extract_entries destDir w es)) = opened w \<and>
   trace (snd (extract_entries destDir w es)) = trace w"
proof (induction es arbitrary: w)
  case Nil
  show ?case by simp
next
  case (Cons f es)
  obtain r w' where e: "extract_entry destDir w f = (r, w')"
    by (cases "extract_entry destDir w f")
  have o: "opened w' = opened w" "trace w' = trace w"
    using extract_entry_keeps [of destDir w f] e by simp_all
  show ?case
  proof (cases r)
    case None
    with e o Cons.IH [of w'] show ?thesis by simp
  next
    case (Some err)
    with e o show ?thesis by simp
  qed
qed

lemma extractZip_opened: "opened (snd (extractZip w zipPath destDir)) = opened w"
proof -
  obtain r w1 where z: "zip_OpenReader w zipPath = (r, w1)"
    by (cases "zip_OpenReader w zipPath")
  note o = zip_OpenReader_keeps(1) [OF z]
  show ?thesis
  proof (cases r)
    case (Inl err)
    with z o show ?thesis by (simp add: extractZip_def)
  next
    case (Inr es)
    have "opened (snd (extract_entries destDir (snd (os_MkdirAll w1 destDir 493)) es)) = opened w1"
      by (simp add: extract_entries_keeps)
    with z Inr o show ?thesis
      by (auto simp: extractZip_def split: prod.splits)
  qed
qed

text \<open>\<^verbatim>\<open>extractZip\<close> prints at most the notice about an invalid archive.\<close>

lemma extractZip_trace:
  "trace (snd (extractZip w zipPath destDir)) = trace w \<or>
   trace (snd (extractZip w zipPath destDir)) = trace w @ [Print (invalid_zip_notice zipPath)]"
proof -
  obtain r w1 where z: "zip_OpenReader w zipPath = (r, w1)"
    by (cases "zip_OpenReader w zipPath")
  note o = zip_OpenReader_keeps(2) [OF z]
  show ?thesis
  proof (cases r)
    case (Inl err)
    with z o show ?thesis by (simp add: extractZip_def)
  next
    case (Inr es)
    have "trace (snd (extract_entries destDir (snd (os_MkdirAll w1 destDir 493)) es)) = trace w1"
      by (simp add: extract_entries_keeps)
    with z Inr o show ?thesis
      by (auto simp: extractZip_def split: prod.splits)
  qed
qed

lemma extractZip_open_error:
  assumes "fst (zip_OpenReader w zipPath) = Inl err"
  shows "extractZip w zipPath destDir =
           (if err = ErrFormat then (None, emit w (Print (invalid_zip_notice zipPath)))
            else (Some err, w))"
proof -
  from assms zip_OpenReader_error_world [of w zipPath err]
  have "zip_OpenReader w zipPath = (Inl err, w)"
    by (cases "zip_OpenReader w zipPath") auto
  then show ?thesis by (simp add: extractZip_def)
qed

subsection \<open>The trace of a worker\<close>

lemma received_simps [simp]:
  "received [] = []"
  "received (xs @ ys) = received xs @ received ys"
  "received (Recv p # xs) = p # received xs"
  "received (Print s # xs) = received xs"
  "received (SendErr e # xs) = received xs"
  by (simp_all add: received_def)

text \<open>What one iteration of the worker adds to the trace: notices, and then the error
  it sends, if it returns one.\<close>

lemma worker_task_trace:
  assumes "worker_task w path = (r, w')"
  shows "\<exists>evs. trace w' = trace w @ evs @ (case r of None \<Rightarrow> [] | Some err \<Rightarrow> [SendErr err]) \<and>
           received evs = [] \<and> (\<forall>e. SendErr e \<notin> set evs)"
proof (cases "IsNotExist (os_Stat w (TrimSuffix path ''.zip''))")
  case False
  with assms have "r = None" and "w' = emit w (Print (skipping_notice (TrimSuffix path ''.zip'')))"
    by (auto simp: worker_task_def)
  then show ?thesis
    by (intro exI [of _ "[Print (skipping_notice (TrimSuffix path ''.zip''))]"]) simp
next
  case True
  let ?w0 = "emit w (Print (extracting_notice path))"
  obtain r1 w1 where x: "extractZip ?w0 path (TrimSuffix path ''.zip'') = (r1, w1)"
    by (cases "extractZip ?w0 path (TrimSuffix path ''.zip'')")
  from extractZip_trace [of ?w0 path "TrimSuffix path ''.zip''"] x
  obtain evs where t: "trace w1 = trace w @ evs" and q: "received evs = []"
    and n: "\<forall>e. SendErr e \<notin> set evs"
    by auto
  show ?thesis
  proof (cases r1)
    case None
    with assms True x have "r = None" "w' = w1" by (auto simp: worker_task_def)
    with t q n show ?thesis by auto
  next
    case (Some err)
    with assms True x have "r = Some err" "w' = emit w1 (SendErr err)"
      by (auto simp: worker_task_def)
    with t q n show ?thesis by auto
  qed
qed

text \<open>The loop: the paths received and the paths left make up the queue, and an error
  is sent, if at all, as the very last event.\<close>

lemma worker_loop_trace:
  "\<exists>evs. trace (fst (worker_loop w ts)) = trace w @ evs \<and>
         received evs @ snd (worker_loop w ts) = ts \<and>
         (\<forall>e. SendErr e \<notin> set (butlast evs))"
proof (induction ts arbitrary: w)
  case Nil
  show ?case by simp
next
  case (Cons path rest)
  obtain r w' where k: "worker_task (emit w (Recv path)) path = (r, w')"
    by (cases "worker_task (emit w (Recv path)) path")
  from worker_task_trace [OF k] obtain evs
    where t: "trace w' = trace w @ Recv path # evs @ (case r of None \<Rightarrow> [] | Some err \<Rightarrow> [SendErr err])"
      and q: "received evs = []" and n: "\<forall>e. SendErr e \<notin> set evs"
    by auto
  show ?case
  proof (cases r)
    case (Some err)
    with k have "worker_loop w (path # rest) = (w', rest)" by simp
    moreover from t Some have "trace w' = trace w @ (Recv path # evs @ [SendErr err])" by simp
    moreover have "received (Recv path # evs @ [SendErr err]) = [path]" using q by simp
    moreover have "\<forall>e. SendErr e \<notin> set (butlast (Recv path # evs @ [SendErr err]))"
      using n by (simp add: butlast_append)
    ultimately show ?thesis
      by (intro exI [of _ "Recv path # evs @ [SendErr err]"]) simp
  next
    case None
    with k have l: "worker_loop w (path # rest) = worker_loop w' rest" by simp
    from Cons.IH [of w'] obtain evs'
      where t': "trace (fst (worker_loop w' rest)) = trace w' @ evs'"
        and q': "received evs' @ snd (worker_loop w' rest) = rest"
        and n': "\<forall>e. SendErr e \<notin> set (butlast evs')"
      by auto
    have "\<forall>e. SendErr e \<notin> set (butlast ((Recv path # evs) @ evs'))"
      using n n' by (auto simp: butlast_append dest: in_set_butlastD)
    with l t t' q q' None show ?thesis
      by (intro exI [of _ "(Recv path # evs) @ evs'"]) simp
  qed
qed

subsection \<open>The trace of the producer\<close>

lemma walked_leaf_ok: "walked (walkFn w path (Some isdir) None) w None"
  unfolding walked_def walkFn_def
  by (cases "\<not> isdir \<and> HasSuffix path ''.zip''")
    (auto intro: exI [of _ "[SendPath path]"] exI [of _ "[]"])

lemma walked_leaf_err: "walked (walkFn w path info (Some (PathError e))) w (Some e)"
  unfolding walked_def walkFn_def
  by (auto intro: exI [of _ "[]"])

lemma walked_seq_ok:
  assumes "walked (r1, w1) w None" and "walked res w1 failure"
  shows "walked res w failure"
proof -
  from assms(1) obtain s1 where s1: "\<forall>ev \<in> set s1. \<exists>p. ev = SendPath p"
    and t1: "trace w1 = trace w @ s1"
    by (auto simp: walked_def)
  from assms(2) obtain s2 where s2: "\<forall>ev \<in> set s2. \<exists>p. ev = SendPath p"
    and r2: "fst res = map_option PathError failure"
    and t2: "trace (snd res) =
          trace w1 @ s2 @ (case failure of None \<Rightarrow> [] | Some e \<Rightarrow> [SendErr (PathError e)])"
    by (auto simp: walked_def)
  from s1 s2 have "\<forall>ev \<in> set (s1 @ s2). \<exists>p. ev = SendPath p" by auto
  moreover from t1 t2 have "trace (snd res) =
      trace w @ (s1 @ s2) @ (case failure of None \<Rightarrow> [] | Some e \<Rightarrow> [SendErr (PathError e)])"
    by simp
  ultimately show ?thesis
    using r2 unfolding walked_def by blast
qed

lemma walked_fst: "walked res w failure \<Longrightarrow> fst res = map_option PathError failure"
  by (auto simp: walked_def)

lemma walk_walked:
  "walked (walk walkFn path t w) w (first_err t)"
  "walked (walk_names walkFn path names w) w (first_err_names names)"
proof (induction t and names arbitrary: path w and path w rule: first_err_first_err_names.induct)
  case 1
  show ?case by (simp add: walked_leaf_ok)
next
  case (2 names)
  obtain r1 w1 where f: "walkFn w path (Some True) None = (r1, w1)"
    by (cases "walkFn w path (Some True) None")
  have a: "walked (r1, w1) w None"
    using walked_leaf_ok [of w path True] f by simp
  then have "r1 = None" by (auto dest: walked_fst)
  with f a "2.IH" [of path w1] show ?case
    by (auto intro: walked_seq_ok)
next
  case (3 e)
  show ?case by (simp add: walked_leaf_err)
next
  case (4 e)
  show ?case by (simp add: walked_leaf_err)
next
  case 5
  show ?case by (simp add: walked_def)
next
  case (6 name t rest)
  obtain r1 w1 where f: "walk walkFn (Join path name) t w = (r1, w1)"
    by (cases "walk walkFn (Join path name) t w")
  with "6.IH"(1) [of "Join path name" w] have a: "walked (r1, w1) w (first_err t)" by simp
  show ?case
  proof (cases "first_err t")
    case (Some e)
    with a have r: "r1 = Some (PathError e)" by (auto dest: walked_fst)
    have "walk_names walkFn path ((name, t) # rest) w = (r1, w1)"
      using f r by (cases t) simp_all
    with a Some show ?thesis by simp
  next
    case None
    with a have r: "r1 = None" by (auto dest: walked_fst)
    have "walk_names walkFn path ((name, t) # rest) w = walk_names walkFn path rest w1"
      using f r by (cases t) simp_all
    with a None "6.IH"(2) [of path w1] show ?thesis
      by (auto intro: walked_seq_ok)
  qed
qed

subsection \<open>What each library call does to the files\<close>

lemma resolve_snoc:
  "resolve fs pre (cs @ [c]) =
     (case resolve fs pre cs of
        Inl e \<Rightarrow> Inl e
      | Inr (File _ _) \<Rightarrow> Inl ENOTDIR
      | Inr (Directory _) \<Rightarrow>
          (case fs (pre @ cs @ [c]) of None \<Rightarrow> Inl ENOENT | Some n \<Rightarrow> Inr n))"
  by (induction cs arbitrary: pre) (auto split: option.splits node.splits)

lemma lookup_parent:
  assumes "k \<noteq> []" and "k \<noteq> [''/'']"
  shows "lookup fs k =
     (case lookup fs (butlast k) of
        Inl e \<Rightarrow> Inl e
      | Inr (File _ _) \<Rightarrow> Inl ENOTDIR
      | Inr (Directory _) \<Rightarrow> (case fs k of None \<Rightarrow> Inl ENOENT | Some n \<Rightarrow> Inr n))"
proof -
  from assms(1) obtain cs c where k: "k = cs @ [c]"
    by (cases k rule: rev_cases) auto
  show ?thesis
  proof (cases cs)
    case Nil
    with k assms(2) show ?thesis
      by (auto simp: lookup_def split: option.splits node.splits)
  next
    case (Cons d ds)
    show ?thesis
    proof (cases "d = ''/''")
      case True
      with k Cons resolve_snoc [of fs "[''/'']" ds c] show ?thesis
        by (simp add: lookup_def split: sum.splits node.splits)
    next
      case False
      with k Cons resolve_snoc [of fs "[]" cs c] show ?thesis
        by (simp add: lookup_def split: sum.splits node.splits)
    qed
  qed
qed

text \<open>A directory is only ever made where there was nothing.\<close>

lemma sys_mkdir_frame:
  assumes "sys_mkdir fs k perm = (r, fs')" and "fs q \<noteq> None"
  shows "fs' q = fs q"
proof (cases "fs' = fs")
  case True
  then show ?thesis by simp
next
  case False
  with assms(1) have l: "\<exists>e. lookup fs k = Inl e" and n: "k \<noteq> []" "k \<noteq> [''/'']"
    and p: "\<exists>m. lookup fs (butlast k) = Inr (Directory m)" and u: "fs' = fs(k \<mapsto> Directory perm)"
    by (auto simp: sys_mkdir_def split: sum.splits if_splits node.splits)
  from l p lookup_parent [OF n, of fs] have "fs k = None"
    by (auto split: option.splits)
  with u assms(2) show ?thesis by auto
qed

lemma mkdir_all_frame:
  "mkdir_all fs k perm = (r, fs') \<Longrightarrow> fs q \<noteq> None \<Longrightarrow> fs' q = fs q"
proof (induction fs k perm arbitrary: r fs' rule: mkdir_all.induct)
  case (1 fs k perm)
  show ?case
  proof (cases "lookup fs k")
    case (Inr n)
    with "1.prems"(1) show ?thesis
      by (cases n) (simp_all add: mkdir_all.simps [of fs k])
  next
    case (Inl e)
    show ?thesis
    proof (cases "k = [] \<or> k = [''/'']")
      case True
      with Inl "1.prems" show ?thesis
        by (auto simp: mkdir_all.simps [of fs k] dest: sys_mkdir_frame)
    next
      case False
      obtain r1 fs1 where a: "mkdir_all fs (butlast k) perm = (r1, fs1)"
        by (cases "mkdir_all fs (butlast k) perm")
      from "1.IH" [OF Inl False a "1.prems"(2)] have f1: "fs1 q = fs q" .
      show ?thesis
      proof (cases r1)
        case (Some e1)
        with Inl False a "1.prems"(1) f1 show ?thesis
          by (simp add: mkdir_all.simps [of fs k])
      next
        case None
        obtain r2 fs2 where b: "sys_mkdir fs1 k perm = (r2, fs2)"
          by (cases "sys_mkdir fs1 k perm")
        from sys_mkdir_frame [OF b, of q] f1 "1.prems"(2) have f2: "fs2 q = fs q" by simp
        from Inl False a None b "1.prems"(1) have "fs' = fs2"
          by (auto simp: mkdir_all.simps [of fs k] split: option.splits sum.splits node.splits)
        with f2 show ?thesis by simp
      qed
    qed
  qed
qed

lemma os_MkdirAll_frame:
  "os_MkdirAll w p perm = (r, w') \<Longrightarrow> files w q \<noteq> None \<Longrightarrow> files w' q = files w q"
  by (auto simp: os_MkdirAll_def split: if_splits prod.splits dest: mkdir_all_frame)

lemma os_OpenFile_files:
  assumes "os_OpenFile w p perm = (Inr h, w')"
  shows "h = OutFile (path_key p) \<and>
         (\<exists>m. files w' = (files w)(path_key p \<mapsto> File m (Raw [])))"
  using assms
  by (auto simp: os_OpenFile_def Let_def acquire_def
      split: if_splits sum.splits node.splits option.splits)

lemma io_Copy_stays:
  "io_Copy w out f = (r, w') \<Longrightarrow> files w q \<noteq> None \<Longrightarrow> files w' q \<noteq> None"
  by (auto simp: io_Copy_def append_file_def
      split: handle.splits option.splits node.splits content.splits)

lemma io_Copy_ok:
  "io_Copy w (OutFile k) f = (None, w') \<Longrightarrow> files w k = Some (File m (Raw bs)) \<Longrightarrow>
     files w' k = Some (File m (Raw (bs @ payload f)))"
  by (auto simp: io_Copy_def append_file_def split: option.splits)

lemma extract_entries_append:
  "extract_entries destDir w (pre @ post) =
     (case extract_entries destDir w pre of
        (Some err, w') \<Rightarrow> (Some err, w')
      | (None, w') \<Rightarrow> extract_entries destDir w' post)"
  by (induction pre arbitrary: w) (auto split: prod.splits option.splits)

text \<open>A file entry that is extracted without error ends up, with its bytes, at the
  key of the joined path.\<close>

lemma extract_entry_file_ok:
  assumes "\<not> IsDir f" and "extract_entry destDir w f = (None, w')"
  shows "\<exists>m. files w' (path_key (Join destDir (Name f))) = Some (File m (Raw (payload f)))"
proof -
  let ?fpath = "Join destDir (Name f)"
  obtain r1 w1 where m: "os_MkdirAll w (Dir ?fpath) ModePerm = (r1, w1)"
    by (cases "os_MkdirAll w (Dir ?fpath) ModePerm")
  obtain r2 w2 where o: "os_OpenFile w1 ?fpath (Mode f) = (r2, w2)"
    by (cases "os_OpenFile w1 ?fpath (Mode f)")
  obtain r3 w3 where e: "entry_Open w2 f = (r3, w3)"
    by (cases "entry_Open w2 f")
  from assms m have r1: "r1 = None"
    by (cases r1) (simp_all add: extract_entry_def)
  from assms m r1 o obtain out where r2: "r2 = Inr out"
    by (cases r2) (simp_all add: extract_entry_def)
  from assms m r1 o r2 e obtain rc where r3: "r3 = Inr rc"
    by (cases r3) (simp_all add: extract_entry_def)
  obtain r4 w4 where c: "io_Copy w3 out f = (r4, w4)"
    by (cases "io_Copy w3 out f")
  from assms m r1 o r2 e r3 c have r4: "r4 = None" and w': "w' = Close (Close w4 out) rc"
    by (simp_all add: extract_entry_def)
  from os_OpenFile_files [OF o [unfolded r2]] obtain md
    where out: "out = OutFile (path_key ?fpath)"
      and f2: "files w2 (path_key ?fpath) = Some (File md (Raw []))"
    by auto
  from entry_Open_keeps(3) [OF e] f2
  have f3: "files w3 (path_key ?fpath) = Some (File md (Raw []))" by simp
  from io_Copy_ok [OF c [unfolded r4 out] f3] w' show ?thesis by simp
qed

subsection \<open>Directories stay\<close>

lemma resolve_mono:
  assumes "\<And>q m. fs q = Some (Directory m) \<Longrightarrow> fs' q = Some (Directory m)"
    and "resolve fs pre cs = Inr (Directory m)"
  shows "resolve fs' pre cs = Inr (Directory m)"
  using assms(2)
proof (induction cs arbitrary: pre)
  case Nil
  then show ?case
    by (auto split: option.splits dest: assms(1))
next
  case (Cons c cs)
  from Cons.prems obtain x where "fs pre = Some (Directory x)"
    by (auto split: option.splits node.splits)
  with Cons assms(1) [of pre x] show ?case by simp
qed

lemma lookup_mono:
  assumes "\<And>q m. fs q = Some (Directory m) \<Longrightarrow> fs' q = Some (Directory m)"
    and "lookup fs k = Inr (Directory m)"
  shows "lookup fs' k = Inr (Directory m)"
  using assms(2) resolve_mono [of fs fs', OF assms(1)]
  by (auto simp: lookup_def simp del: resolve.simps split: list.splits if_splits)

lemma sys_mkdir_made:
  assumes "sys_mkdir fs k perm = (None, fs')"
  shows "lookup fs' k = Inr (Directory perm)"
proof -
  from assms have n: "k \<noteq> []" "k \<noteq> [''/'']"
    and p: "\<exists>m. lookup fs (butlast k) = Inr (Directory m)"
    and u: "fs' = fs(k \<mapsto> Directory perm)"
    by (auto simp: sys_mkdir_def split: sum.splits if_splits node.splits)
  have "fs' q = Some (Directory m)" if "fs q = Some (Directory m)" for q m
    using sys_mkdir_frame [OF assms, of q] that by simp
  with p have "\<exists>m. lookup fs' (butlast k) = Inr (Directory m)"
    by (auto dest: lookup_mono [of fs fs', rotated])
  with u lookup_parent [OF n, of fs'] show ?thesis by auto
qed

lemma mkdir_all_made:
  assumes "mkdir_all fs k perm = (None, fs')"
  shows "\<exists>m. lookup fs' k = Inr (Directory m)"
proof (cases "lookup fs k")
  case (Inr n)
  with assms show ?thesis
    by (cases n) (simp_all add: mkdir_all.simps [of fs k])
next
  case (Inl e)
  show ?thesis
  proof (cases "k = [] \<or> k = [''/'']")
    case True
    with Inl assms have "sys_mkdir fs k perm = (None, fs')"
      by (simp add: mkdir_all.simps [of fs k])
    then show ?thesis by (auto dest: sys_mkdir_made)
  next
    case False
    obtain r1 fs1 where a: "mkdir_all fs (butlast k) perm = (r1, fs1)"
      by (cases "mkdir_all fs (butlast k) perm")
    obtain r2 fs2 where b: "sys_mkdir fs1 k perm = (r2, fs2)"
      by (cases "sys_mkdir fs1 k perm")
    from Inl False a assms have r1: "r1 = None"
      by (cases r1) (simp_all add: mkdir_all.simps [of fs k])
    show ?thesis
    proof (cases r2)
      case None
      with Inl False a r1 b assms have "fs' = fs2"
        by (simp add: mkdir_all.simps [of fs k])
      with b None show ?thesis by (auto dest: sys_mkdir_made)
    next
      case (Some e2)
      with Inl False a r1 b assms show ?thesis
        by (auto simp: mkdir_all.simps [of fs k] split: sum.splits node.splits)
    qed
  qed
qed

lemma os_MkdirAll_made:
  "os_MkdirAll w p perm = (None, w') \<Longrightarrow> is_directory w' p"
  by (auto simp: os_MkdirAll_def is_directory_def split: if_splits prod.splits
      dest!: mkdir_all_made)

lemma os_OpenFile_dirs:
  "os_OpenFile w p perm = (r, w') \<Longrightarrow> files w q = Some (Directory m) \<Longrightarrow>
     files w' q = Some (Directory m)"
  by (auto simp: os_OpenFile_def Let_def acquire_def
      split: if_splits sum.splits node.splits option.splits)

lemma io_Copy_dirs:
  "io_Copy w out f = (r, w') \<Longrightarrow> files w q = Some (Directory m) \<Longrightarrow>
     files w' q = Some (Directory m)"
  by (auto simp: io_Copy_def append_file_def
      split: handle.splits option.splits node.splits content.splits)

lemma os_MkdirAll_dirs:
  "files w q = Some (Directory m) \<Longrightarrow> files (snd (os_MkdirAll w p perm)) q = Some (Directory m)"
  using os_MkdirAll_frame [of w p perm "fst (os_MkdirAll w p perm)" "snd (os_MkdirAll w p perm)" q]
  by simp

lemma extract_entry_dirs:
  assumes "files w q = Some (Directory m)"
  shows "files (snd (extract_entry destDir w f)) q = Some (Directory m)"
proof (cases "IsDir f")
  case True
  with assms show ?thesis by (simp add: extract_entry_def os_MkdirAll_dirs)
next
  case False
  let ?fpath = "Join destDir (Name f)"
  obtain r1 w1 where m: "os_MkdirAll w (Dir ?fpath) ModePerm = (r1, w1)"
    by (cases "os_MkdirAll w (Dir ?fpath) ModePerm")
  have d1: "files w1 q = Some (Directory m)"
    using os_MkdirAll_dirs [OF assms, of "Dir ?fpath" ModePerm] m by simp
  obtain r2 w2 where o: "os_OpenFile w1 ?fpath (Mode f) = (r2, w2)"
    by (cases "os_OpenFile w1 ?fpath (Mode f)")
  note d2 = os_OpenFile_dirs [OF o d1]
  obtain r3 w3 where e: "entry_Open w2 f = (r3, w3)"
    by (cases "entry_Open w2 f")
  have d3: "files w3 q = Some (Directory m)"
    using entry_Open_keeps(3) [OF e] d2 by simp
  show ?thesis
  proof (cases r1)
    case (Some err)
    with False m d1 show ?thesis by (simp add: extract_entry_def)
  next
    case None
    show ?thesis
    proof (cases r2)
      case (Inl err)
      with False m None o d2 show ?thesis by (simp add: extract_entry_def)
    next
      case (Inr outFile)
      show ?thesis
      proof (cases r3)
        case (Inl err)
        with False m None o Inr e d3 show ?thesis by (simp add: extract_entry_def)
      next
        case (Inr rc)
        obtain r4 w4 where c: "io_Copy w3 outFile f = (r4, w4)"
          by (cases "io_Copy w3 outFile f")
        note d4 = io_Copy_dirs [OF c d3]
        from False m None o \<open>r2 = Inr outFile\<close> e Inr c d4 show ?thesis
          by (simp add: extract_entry_def)
      qed
    qed
  qed
qed

lemma extract_entries_dirs:
  "files w q = Some (Directory m) \<Longrightarrow>
     files (snd (extract_entries destDir w es)) q = Some (Directory m)"
proof (induction es arbitrary: w)
  case Nil
  then show ?case by simp
next
  case (Cons f es)
  obtain r w' where e: "extract_entry destDir w f = (r, w')"
    by (cases "extract_entry destDir w f")
  with extract_entry_dirs [OF Cons.prems, of destDir f]
  have "files w' q = Some (Directory m)" by simp
  with e Cons.IH [of w'] show ?case
    by (cases r) simp_all
qed

lemma is_directory_mono:
  assumes "\<And>q m. files w q = Some (Directory m) \<Longrightarrow> files w' q = Some (Directory m)"
    and "is_directory w p"
  shows "is_directory w' p"
proof -
  from assms(2) obtain m where "p \<noteq> []" "lookup (files w) (path_key p) = Inr (Directory m)"
    by (auto simp: is_directory_def split: sum.splits node.splits)
  with lookup_mono [of "files w" "files w'" "path_key p" m] assms(1) show ?thesis
    by (simp add: is_directory_def)
qed

section \<open>The claims\<close>

text \<open>
  C1. For every path the worker takes as its destination directory the path without
  its suffix \<^verbatim>\<open>.zip\<close>; when \<^verbatim>\<open>os.Stat\<close> finds something under that name, the
  iteration only prints the skip notice: nothing is extracted (files and handles are
  as before) and no error is sent or returned.
\<close>

theorem worker_skips_existing_destination:
  "TrimSuffix (base @ ''.zip'') ''.zip'' = base \<and>
   (os_Stat w (TrimSuffix path ''.zip'') = None \<longrightarrow>
      worker_task w path =
        (None, emit w (Print (skipping_notice (TrimSuffix path ''.zip'')))) \<and>
      files (snd (worker_task w path)) = files w \<and>
      opened (snd (worker_task w path)) = opened w)"
  by (simp add: TrimSuffix_append worker_task_def)

theorem worker_skips_existing_destination_witness:
  "os_Stat tidy_world (TrimSuffix ''x.zip'' ''.zip'') = None \<and>
   worker_task tidy_world ''x.zip'' = (None, emit tidy_world (Print (skipping_notice ''x'')))"
proof -
  have t: "TrimSuffix ''x.zip'' ''.zip'' = ''x''"
    by (simp add: TrimSuffix_def HasSuffix_def)
  have s: "os_Stat tidy_world ''x'' = None"
    by code_simp
  from worker_skips_existing_destination [of "''x''" tidy_world "''x.zip''"] t s
  show ?thesis by simp
qed

text \<open>
  C2. The claim fails on the code. \<^verbatim>\<open>extractZip\<close> takes a file for an invalid
  archive only when the error of \<^verbatim>\<open>zip.OpenReader\<close> is \<^verbatim>\<open>zip.ErrFormat\<close>, and the
  library has a second answer for a file that is no well-formed archive. For
  \<^verbatim>\<open>cut.zip\<close>, whose central directory is cut short, the open fails with
  \<^verbatim>\<open>io.ErrUnexpectedEOF\<close>: \<^verbatim>\<open>extractZip\<close> prints no notice and returns the error, and
  the worker sends it and ends, leaving \<^verbatim>\<open>x.zip\<close> in the queue.
\<close>

theorem damaged_archive_is_fatal:
  "fst (zip_OpenReader cut_world ''cut.zip'') = Inl ErrUnexpectedEOF \<and>
   fst (extractZip cut_world ''cut.zip'' ''cut'') = Some ErrUnexpectedEOF \<and>
   trace (snd (extractZip cut_world ''cut.zip'' ''cut'')) = [] \<and>
   trace (fst (worker cut_world [''cut.zip'', ''x.zip''])) =
     [Recv ''cut.zip'', Print (extracting_notice ''cut.zip''),
      SendErr ErrUnexpectedEOF, WgDone] \<and>
   snd (worker cut_world [''cut.zip'', ''x.zip'']) = [''x.zip'']"
  by code_simp

text \<open>
  C3. When \<^verbatim>\<open>extractZip\<close> returns an error for a path, the worker sends that error on
  the error channel as the last event of the iteration, and the worker then ends: it
  only signals \<^verbatim>\<open>wg.Done()\<close> and leaves the rest of the queue unreceived. In every
  run of a worker, the paths it received followed by the paths it left are the queue,
  and no event of its loop comes after the sending of an error.
\<close>

theorem worker_stops_after_fatal:
  "(IsNotExist (os_Stat w (TrimSuffix path ''.zip'')) \<and>
    extractZip (emit w (Print (extracting_notice path))) path (TrimSuffix path ''.zip'') =
      (Some err, wx)
      \<longrightarrow> worker_task w path = (Some err, emit wx (SendErr err))) \<and>
   (worker_task (emit w (Recv path)) path = (Some err, wt)
      \<longrightarrow> worker w (path # rest) = (emit wt WgDone, rest)) \<and>
   (\<exists>evs. trace (fst (worker w ts)) = trace w @ evs @ [WgDone] \<and>
          received evs @ snd (worker w ts) = ts \<and>
          (\<forall>e. SendErr e \<notin> set (butlast evs)))"
proof -
  from worker_loop_trace [of w ts] obtain evs
    where "trace (fst (worker_loop w ts)) = trace w @ evs"
      and "received evs @ snd (worker_loop w ts) = ts"
      and "\<forall>e. SendErr e \<notin> set (butlast evs)"
    by auto
  then have "trace (fst (worker w ts)) = trace w @ evs @ [WgDone] \<and>
          received evs @ snd (worker w ts) = ts \<and>
          (\<forall>e. SendErr e \<notin> set (butlast evs))"
    by (cases "worker_loop w ts") (simp add: worker_def)
  moreover have "IsNotExist (os_Stat w (TrimSuffix path ''.zip'')) \<and>
    extractZip (emit w (Print (extracting_notice path))) path (TrimSuffix path ''.zip'') =
      (Some err, wx)
      \<longrightarrow> worker_task w path = (Some err, emit wx (SendErr err))"
    by (simp add: worker_task_def)
  moreover have "worker_task (emit w (Recv path)) path = (Some err, wt)
      \<longrightarrow> worker w (path # rest) = (emit wt WgDone, rest)"
    by (simp add: worker_def)
  ultimately show ?thesis
    by blast
qed

theorem worker_stops_after_fatal_witness:
  "worker tidy_world [''gone.zip'', ''x.zip''] =
     (emit (emit (emit (emit tidy_world (Recv ''gone.zip''))
        (Print (extracting_notice ''gone.zip''))) (SendErr (PathError ENOENT))) WgDone,
      [''x.zip''])"
proof -
  let ?w = "emit tidy_world (Recv ''gone.zip'')"
  let ?w' = "emit ?w (Print (extracting_notice ''gone.zip''))"
  have t: "TrimSuffix ''gone.zip'' ''.zip'' = ''gone''"
    by (simp add: TrimSuffix_def HasSuffix_def)
  have s: "IsNotExist (os_Stat ?w ''gone'')"
    by code_simp
  have "fst (zip_OpenReader ?w' ''gone.zip'') = Inl (PathError ENOENT)"
    by code_simp
  then have x: "extractZip ?w' ''gone.zip'' ''gone'' = (Some (PathError ENOENT), ?w')"
    by (simp add: extractZip_open_error)
  from worker_stops_after_fatal
    [where w = ?w and path = "''gone.zip''" and err = "PathError ENOENT" and wx = ?w'] t s x
  have k: "worker_task ?w ''gone.zip'' = (Some (PathError ENOENT), emit ?w' (SendErr (PathError ENOENT)))"
    by simp
  from worker_stops_after_fatal
    [where w = tidy_world and path = "''gone.zip''" and err = "PathError ENOENT"
       and wt = "emit ?w' (SendErr (PathError ENOENT))" and rest = "[''x.zip'']"] k
  show ?thesis by simp
qed

text \<open>
  C4. When the first file-system error the traversal meets is \<open>e\<close>, the producer's
  trace is: paths sent, then \<open>e\<close> sent on the error channel, then the closing of the
  channel of paths, and nothing else; and the names that follow the failing one in its
  directory are not visited at all.
\<close>

theorem traversal_error_aborts_discovery:
  "(first_err t = Some e \<longrightarrow>
      (\<exists>sends. trace (producer w startDir t) =
                 trace w @ sends @ [SendErr (PathError e), ClosePaths] \<and>
               list_all is_SendPath sends)) \<and>
   (first_err t = Some e \<longrightarrow>
      walk_names walkFn path ((name, t) # rest) w = walk_names walkFn path [(name, t)] w)"
proof -
  have "\<exists>sends. trace (producer w startDir t) =
                   trace w @ sends @ [SendErr (PathError e), ClosePaths] \<and>
                 list_all is_SendPath sends" if "first_err t = Some e"
  proof -
    from walk_walked(1) [of startDir t w] that
    obtain sends where s: "\<forall>ev \<in> set sends. \<exists>p. ev = SendPath p"
      and r: "fst (walk walkFn startDir t w) = Some (PathError e)"
      and t: "trace (snd (walk walkFn startDir t w)) = trace w @ sends @ [SendErr (PathError e)]"
      by (auto simp: walked_def)
    from r t have "trace (producer w startDir t) =
        trace w @ sends @ [SendErr (PathError e), ClosePaths]"
      by (cases "walk walkFn startDir t w") (simp add: producer_def Walk_def)
    moreover from s have "list_all is_SendPath sends"
      by (auto simp: list_all_iff)
    ultimately show ?thesis by blast
  qed
  moreover have "walk_names walkFn path ((name, t) # rest) w = walk_names walkFn path [(name, t)] w"
    if "first_err t = Some e"
  proof -
    from walk_walked(1) [of "Join path name" t w] that
    have "fst (walk walkFn (Join path name) t w) = Some (PathError e)"
      by (auto simp: walked_def)
    then show ?thesis
      by (cases "walk walkFn (Join path name) t w"; cases t) simp_all
  qed
  ultimately show ?thesis by blast
qed

theorem traversal_error_aborts_discovery_witness:
  "first_err broken_tree = Some EACCES \<and>
   (\<exists>sends. trace (producer tidy_world ''root'' broken_tree) =
              trace tidy_world @ sends @ [SendErr (PathError EACCES), ClosePaths] \<and>
            list_all is_SendPath sends) \<and>
   trace (producer tidy_world ''root'' broken_tree) =
     [SendPath ''root/a.zip'', SendErr (PathError EACCES), ClosePaths]"
proof -
  have h: "first_err broken_tree = Some EACCES"
    by code_simp
  have c: "trace (producer tidy_world ''root'' broken_tree) =
     [SendPath ''root/a.zip'', SendErr (PathError EACCES), ClosePaths]"
    by code_simp
  from h c traversal_error_aborts_discovery [of broken_tree EACCES tidy_world "''root''"]
  show ?thesis by blast
qed

text \<open>
  C5. When the copy of an entry fails, \<^verbatim>\<open>extractZip\<close> returns that error, and the
  loop ends as if the archive ended with that entry: no later entry is processed.
  Nothing is rolled back: the files at the return are the files as the failed copy
  left them, and every name that was on disk when the entry's turn came, the outputs
  of the entries before it among them, is still on disk.
\<close>

theorem copy_failure_aborts_extraction:
  assumes "zip_OpenReader w zipPath = (Inr (pre @ f # post), w0)"
    and "extract_entries destDir (snd (os_MkdirAll w0 destDir 493)) pre = (None, w1)"
    and "\<not> IsDir f"
    and "os_MkdirAll w1 (Dir (Join destDir (Name f))) ModePerm = (None, w2)"
    and "os_OpenFile w2 (Join destDir (Name f)) (Mode f) = (Inr out, w3)"
    and "entry_Open w3 f = (Inr rc, w4)"
    and "io_Copy w4 out f = (Some e, w5)"
  shows "extractZip w zipPath destDir =
           (Some e, Close (Close (Close w5 out) rc) (ZipReader zipPath)) \<and>
         extract_entries destDir (snd (os_MkdirAll w0 destDir 493)) (pre @ f # post) =
           extract_entries destDir (snd (os_MkdirAll w0 destDir 493)) (pre @ [f]) \<and>
         files (snd (extractZip w zipPath destDir)) = files w5 \<and>
         (\<forall>k. files w1 k \<noteq> None \<longrightarrow> files (snd (extractZip w zipPath destDir)) k \<noteq> None)"
proof -
  have step: "extract_entry destDir w1 f = (Some e, Close (Close w5 out) rc)"
    using assms(3-7) by (simp add: extract_entry_def)
  have all: "extract_entries destDir (snd (os_MkdirAll w0 destDir 493)) (pre @ f # post) =
          (Some e, Close (Close w5 out) rc)"
    using assms(2) step by (simp add: extract_entries_append)
  have cut: "extract_entries destDir (snd (os_MkdirAll w0 destDir 493)) (pre @ [f]) =
          (Some e, Close (Close w5 out) rc)"
    using assms(2) step by (simp add: extract_entries_append)
  from all assms(1) have res: "extractZip w zipPath destDir =
           (Some e, Close (Close (Close w5 out) rc) (ZipReader zipPath))"
    by (simp add: extractZip_def)
  have "files w5 k \<noteq> None" if "files w1 k \<noteq> None" for k
  proof -
    from os_MkdirAll_frame [OF assms(4) that] that have a: "files w2 k \<noteq> None" by simp
    from os_OpenFile_files [OF assms(5)] a have b: "files w3 k \<noteq> None" by auto
    with entry_Open_keeps(3) [OF assms(6)] have c: "files w4 k \<noteq> None" by simp
    from io_Copy_stays [OF assms(7) c] show ?thesis .
  qed
  with res all cut show ?thesis by simp
qed

text \<open>The archive \<^verbatim>\<open>d.zip\<close>: the copy of \<^verbatim>\<open>b.txt\<close> fails, the error is returned,
  \<^verbatim>\<open>a.txt\<close>, written before, is still there, and \<^verbatim>\<open>c.txt\<close> is never written.\<close>

theorem copy_failure_aborts_extraction_witness:
  "fst (extractZip faulty_world ''d.zip'' ''d'') = Some ErrChecksum \<and>
   files (snd (extractZip faulty_world ''d.zip'' ''d'')) [''d'', ''a.txt''] \<noteq> None \<and>
   files (snd (extractZip faulty_world ''d.zip'' ''d'')) [''d'', ''a.txt''] =
     Some (File 420 (Raw [104, 105])) \<and>
   files (snd (extractZip faulty_world ''d.zip'' ''d'')) [''d'', ''c.txt''] = None"
proof -
  let ?pre = "[plain_file ''a.txt'' [104, 105]]"
  let ?f = "corrupt_file ''b.txt'' [1, 2, 3]"
  let ?post = "[plain_file ''c.txt'' [7]]"
  let ?w0 = "snd (zip_OpenReader faulty_world ''d.zip'')"
  let ?w1 = "snd (extract_entries ''d'' (snd (os_MkdirAll ?w0 ''d'' 493)) ?pre)"
  let ?w2 = "snd (os_MkdirAll ?w1 (Dir (Join ''d'' (Name ?f))) ModePerm)"
  let ?w3 = "snd (os_OpenFile ?w2 (Join ''d'' (Name ?f)) (Mode ?f))"
  let ?w4 = "snd (entry_Open ?w3 ?f)"
  let ?w5 = "snd (io_Copy ?w4 (OutFile [''d'', ''b.txt'']) ?f)"
  have "fst (zip_OpenReader faulty_world ''d.zip'') = Inr (?pre @ ?f # ?post)"
    by code_simp
  then have h1: "zip_OpenReader faulty_world ''d.zip'' = (Inr (?pre @ ?f # ?post), ?w0)"
    by (simp add: prod_eq_iff)
  have "fst (extract_entries ''d'' (snd (os_MkdirAll ?w0 ''d'' 493)) ?pre) = None"
    by code_simp
  then have h2: "extract_entries ''d'' (snd (os_MkdirAll ?w0 ''d'' 493)) ?pre = (None, ?w1)"
    by (simp add: prod_eq_iff)
  have h3: "\<not> IsDir ?f"
    by code_simp
  have "fst (os_MkdirAll ?w1 (Dir (Join ''d'' (Name ?f))) ModePerm) = None"
    by code_simp
  then have h4: "os_MkdirAll ?w1 (Dir (Join ''d'' (Name ?f))) ModePerm = (None, ?w2)"
    by (simp add: prod_eq_iff)
  have "fst (os_OpenFile ?w2 (Join ''d'' (Name ?f)) (Mode ?f)) = Inr (OutFile [''d'', ''b.txt''])"
    by code_simp
  then have h5: "os_OpenFile ?w2 (Join ''d'' (Name ?f)) (Mode ?f) =
      (Inr (OutFile [''d'', ''b.txt'']), ?w3)"
    by (simp add: prod_eq_iff)
  have "fst (entry_Open ?w3 ?f) = Inr (EntryReader ''b.txt'')"
    by code_simp
  then have h6: "entry_Open ?w3 ?f = (Inr (EntryReader ''b.txt''), ?w4)"
    by (simp add: prod_eq_iff)
  have "fst (io_Copy ?w4 (OutFile [''d'', ''b.txt'']) ?f) = Some ErrChecksum"
    by code_simp
  then have h7: "io_Copy ?w4 (OutFile [''d'', ''b.txt'']) ?f = (Some ErrChecksum, ?w5)"
    by (simp add: prod_eq_iff)
  have v: "files ?w1 [''d'', ''a.txt''] \<noteq> None"
    by code_simp
  note r = copy_failure_aborts_extraction [OF h1 h2 h3 h4 h5 h6 h7]
  from r have "fst (extractZip faulty_world ''d.zip'' ''d'') = Some ErrChecksum"
    by (simp only: fst_conv)
  moreover from r [THEN conjunct2, THEN conjunct2, THEN conjunct2, THEN spec, THEN mp, OF v]
  have "files (snd (extractZip faulty_world ''d.zip'' ''d'')) [''d'', ''a.txt''] \<noteq> None" .
  moreover have "files (snd (extractZip faulty_world ''d.zip'' ''d'')) [''d'', ''a.txt''] =
     Some (File 420 (Raw [104, 105])) \<and>
   files (snd (extractZip faulty_world ''d.zip'' ''d'')) [''d'', ''c.txt''] = None"
    by code_simp
  ultimately show ?thesis by blast
qed

text \<open>
  C6. Whichever way the iteration for one entry ends, the handles open after it are
  those open before it: the output file and the entry's reader, if they were opened,
  have been closed. The same holds of \<^verbatim>\<open>extractZip\<close> as a whole, with the archive's
  reader.
\<close>

theorem extractZip_releases_what_it_opens:
  "opened (snd (extract_entry destDir w f)) = opened w \<and>
   opened (snd (extractZip w zipPath destDir)) = opened w"
  by (simp add: extract_entry_keeps extractZip_opened)

text \<open>
  C7. The claim fails on the code. The start directory is a regular file named
  \<^verbatim>\<open>.zip\<close>: the worker's destination is the empty name, which does not exist, so the
  archive is extracted. \<^verbatim>\<open>MkdirAll\<close> of the empty name fails, and the error is
  dropped; the output of the first entry is then opened, and written, in the working
  directory, while the destination still does not exist.
\<close>

theorem output_opened_without_destination:
  "TrimSuffix ''.zip'' ''.zip'' = [] \<and>
   IsNotExist (os_Stat dot_world []) \<and>
   fst (os_MkdirAll (snd (zip_OpenReader dot_world ''.zip'')) [] 493) =
     Some (PathError ENOENT) \<and>
   os_Stat (snd (os_MkdirAll (snd (os_MkdirAll (snd (zip_OpenReader dot_world ''.zip'')) [] 493))
              (Dir (Join [] ''a.txt'')) ModePerm)) [] = Some (PathError ENOENT) \<and>
   fst (os_OpenFile (snd (os_MkdirAll (snd (os_MkdirAll (snd (zip_OpenReader dot_world ''.zip'')) [] 493))
              (Dir (Join [] ''a.txt'')) ModePerm)) (Join [] ''a.txt'') 420) =
     Inr (OutFile [''a.txt'']) \<and>
   fst (extractZip dot_world ''.zip'' []) = None \<and>
   files (snd (extractZip dot_world ''.zip'' [])) [''a.txt''] =
     Some (File 420 (Raw [104, 105])) \<and>
   os_Stat (snd (extractZip dot_world ''.zip'' [])) [] = Some (PathError ENOENT)"
  by code_simp

text \<open>
  C9. When \<^verbatim>\<open>os.Stat\<close> of the destination fails with an error that is not a
  not-exist error, the iteration is the same as for an existing destination: only the
  skip notice, no extraction, no error.
\<close>

theorem worker_skips_on_other_stat_error:
  "os_Stat w (TrimSuffix path ''.zip'') = Some e \<Longrightarrow> e \<noteq> PathError ENOENT \<Longrightarrow>
     worker_task w path =
       (None, emit w (Print (skipping_notice (TrimSuffix path ''.zip''))))"
  by (simp add: worker_task_def IsNotExist_iff)

theorem worker_skips_on_other_stat_error_witness:
  "os_Stat tidy_world (TrimSuffix ''f/x.zip'' ''.zip'') = Some (PathError ENOTDIR) \<and>
   worker_task tidy_world ''f/x.zip'' =
     (None, emit tidy_world (Print (skipping_notice ''f/x'')))"
proof -
  have t: "TrimSuffix ''f/x.zip'' ''.zip'' = ''f/x''"
    by (simp add: TrimSuffix_def HasSuffix_def)
  have s: "os_Stat tidy_world ''f/x'' = Some (PathError ENOTDIR)"
    by code_simp
  from worker_skips_on_other_stat_error [of tidy_world "''f/x.zip''" "PathError ENOTDIR"] t s
  show ?thesis by simp
qed

text \<open>
  C10. A file entry that is extracted without error is written, with its bytes, at
  the key of \<^verbatim>\<open>filepath.Join(destDir, f.Name)\<close>, whatever the name is. For the name
  \<^verbatim>\<open>../evil.txt\<close> and the destination \<^verbatim>\<open>out\<close>, the joined path is \<^verbatim>\<open>evil.txt\<close>,
  which is not below \<^verbatim>\<open>out\<close>, and extracting such an archive writes that file.
\<close>

theorem entry_name_can_escape_destination:
  "(\<not> IsDir f \<and> extract_entry destDir w f = (None, w') \<longrightarrow>
      (\<exists>m. files w' (path_key (Join destDir (Name f))) = Some (File m (Raw (payload f))))) \<and>
   ''..'' \<in> set (elements [] ''../evil.txt'') \<and>
   Join ''out'' ''../evil.txt'' = ''evil.txt'' \<and>
   \<not> below (path_key ''out'') (path_key (Join ''out'' ''../evil.txt'')) \<and>
   fst (extractZip slip_world ''a.zip'' ''out'') = None \<and>
   files (snd (extractZip slip_world ''a.zip'' ''out'')) [''evil.txt''] =
     Some (File 420 (Raw [66]))"
proof -
  have "''..'' \<in> set (elements [] ''../evil.txt'') \<and>
   Join ''out'' ''../evil.txt'' = ''evil.txt'' \<and>
   \<not> below (path_key ''out'') (path_key (Join ''out'' ''../evil.txt'')) \<and>
   fst (extractZip slip_world ''a.zip'' ''out'') = None \<and>
   files (snd (extractZip slip_world ''a.zip'' ''out'')) [''evil.txt''] =
     Some (File 420 (Raw [66]))"
    by code_simp
  then show ?thesis
    using extract_entry_file_ok [of f destDir w w'] by blast
qed

theorem entry_name_can_escape_destination_witness:
  "\<not> IsDir (plain_file ''../evil.txt'' [66]) \<and>
   fst (extract_entry ''out'' slip_world (plain_file ''../evil.txt'' [66])) = None \<and>
   (\<exists>m. files (snd (extract_entry ''out'' slip_world (plain_file ''../evil.txt'' [66])))
          (path_key (Join ''out'' (Name (plain_file ''../evil.txt'' [66])))) =
        Some (File m (Raw (payload (plain_file ''../evil.txt'' [66])))))"
proof -
  let ?f = "plain_file ''../evil.txt'' [66]"
  have a: "\<not> IsDir ?f"
    by code_simp
  have b: "fst (extract_entry ''out'' slip_world ?f) = None"
    by code_simp
  then have "extract_entry ''out'' slip_world ?f =
      (None, snd (extract_entry ''out'' slip_world ?f))"
    by (simp add: prod_eq_iff)
  with a b entry_name_can_escape_destination
    [of ?f "''out''" slip_world "snd (extract_entry ''out'' slip_world ?f)"]
  show ?thesis by blast
qed

section \<open>Further properties\<close>

text \<open>
  X1. When the \<^verbatim>\<open>MkdirAll\<close> of the destination succeeds, the destination is a
  directory from then on: after any number of entries, and in the world in which the
  output of the next entry is opened.
\<close>

theorem destination_stays_once_made:
  assumes "os_MkdirAll w destDir 493 = (None, w1)"
  shows "is_directory w1 destDir \<and>
         is_directory (snd (extract_entries destDir w1 pre)) destDir \<and>
         is_directory (snd (os_MkdirAll (snd (extract_entries destDir w1 pre))
                         (Dir (Join destDir (Name f))) ModePerm)) destDir"
proof -
  from assms have a: "is_directory w1 destDir" by (rule os_MkdirAll_made)
  then have b: "is_directory (snd (extract_entries destDir w1 pre)) destDir"
    by (rule is_directory_mono [rotated]) (rule extract_entries_dirs)
  then have "is_directory (snd (os_MkdirAll (snd (extract_entries destDir w1 pre))
                         (Dir (Join destDir (Name f))) ModePerm)) destDir"
    by (rule is_directory_mono [rotated]) (rule os_MkdirAll_dirs)
  with a b show ?thesis by simp
qed

theorem destination_stays_once_made_witness:
  "fst (os_MkdirAll faulty_world ''d'' 493) = None \<and>
   is_directory (snd (extract_entries ''d'' (snd (os_MkdirAll faulty_world ''d'' 493))
      [plain_file ''a.txt'' [104, 105]])) ''d''"
proof -
  have "fst (os_MkdirAll faulty_world ''d'' 493) = None"
    by code_simp
  then have h: "os_MkdirAll faulty_world ''d'' 493 = (None, snd (os_MkdirAll faulty_world ''d'' 493))"
    by (simp add: prod_eq_iff)
  note r = destination_stays_once_made [OF h, of "[plain_file ''a.txt'' [104, 105]]"]
  from r [THEN conjunct2, THEN conjunct1]
  have "is_directory (snd (extract_entries ''d'' (snd (os_MkdirAll faulty_world ''d'' 493))
      [plain_file ''a.txt'' [104, 105]])) ''d''" .
  with \<open>fst (os_MkdirAll faulty_world ''d'' 493) = None\<close> show ?thesis
    by (rule conjI)
qed

text \<open>
  X2. The archive with \<^verbatim>\<open>a/b.txt\<close> and \<^verbatim>\<open>c/\<close>, extracted to \<^verbatim>\<open>D\<close>, gives the file
  \<^verbatim>\<open>D/a/b.txt\<close> with its two bytes and the directory \<^verbatim>\<open>D/c\<close>.
\<close>

theorem sample_archive_extracted:
  "fst (extractZip sample_world ''s.zip'' ''D'') = None \<and>
   files (snd (extractZip sample_world ''s.zip'' ''D'')) [''D'', ''a'', ''b.txt''] =
     Some (File 420 (Raw [104, 105])) \<and>
   is_directory (snd (extractZip sample_world ''s.zip'' ''D'')) ''D/c''"
  by code_simp

text \<open>
  X3. A traversal that meets no file-system error sends paths and then closes the
  channel of paths; it sends no error.
\<close>

theorem clean_traversal_sends_and_closes:
  "first_err t = None \<Longrightarrow>
     \<exists>sends. trace (producer w startDir t) = trace w @ sends @ [ClosePaths] \<and>
             list_all is_SendPath sends"
proof -
  assume "first_err t = None"
  with walk_walked(1) [of startDir t w]
  obtain sends where s: "\<forall>ev \<in> set sends. \<exists>p. ev = SendPath p"
    and r: "fst (walk walkFn startDir t w) = None"
    and t: "trace (snd (walk walkFn startDir t w)) = trace w @ sends"
    by (auto simp: walked_def)
  from r t have "trace (producer w startDir t) = trace w @ sends @ [ClosePaths]"
    by (cases "walk walkFn startDir t w") (simp add: producer_def Walk_def)
  moreover from s have "list_all is_SendPath sends"
    by (auto simp: list_all_iff)
  ultimately show ?thesis by blast
qed


theorem clean_traversal_sends_and_closes_witness:
  "first_err clean_tree = None \<and>
   (\<exists>sends. trace (producer tidy_world ''root'' clean_tree) =
              trace tidy_world @ sends @ [ClosePaths] \<and>
            list_all is_SendPath sends) \<and>
   trace (producer tidy_world ''root'' clean_tree) =
     [SendPath ''root/a.zip'', SendPath ''root/b/c.zip'', ClosePaths]"
proof -
  have h: "first_err clean_tree = None"
    by code_simp
  have c: "trace (producer tidy_world ''root'' clean_tree) =
     [SendPath ''root/a.zip'', SendPath ''root/b/c.zip'', ClosePaths]"
    by code_simp
  from h c clean_traversal_sends_and_closes [of clean_tree tidy_world "''root''"]
  show ?thesis by blast
qed

text \<open>
  X4. What \<^verbatim>\<open>extractZip\<close> does with an error of \<^verbatim>\<open>zip.OpenReader\<close>: for
  \<^verbatim>\<open>zip.ErrFormat\<close> it prints its notice and returns \<^verbatim>\<open>nil\<close>, changing nothing else;
  any other error it returns, changing nothing.
\<close>

theorem extractZip_open_failure:
  "(fst (zip_OpenReader w zipPath) = Inl ErrFormat \<longrightarrow>
      extractZip w zipPath destDir = (None, emit w (Print (invalid_zip_notice zipPath)))) \<and>
   (fst (zip_OpenReader w zipPath) = Inl err \<and> err \<noteq> ErrFormat \<longrightarrow>
      extractZip w zipPath destDir = (Some err, w))"
  by (auto dest: extractZip_open_error [where destDir = destDir])

theorem extractZip_open_failure_witness:
  "fst (zip_OpenReader tidy_world ''bad.zip'') = Inl ErrFormat \<and>
   extractZip tidy_world ''bad.zip'' ''bad'' =
     (None, emit tidy_world (Print (invalid_zip_notice ''bad.zip''))) \<and>
   fst (zip_OpenReader tidy_world ''gone.zip'') = Inl (PathError ENOENT) \<and>
   extractZip tidy_world ''gone.zip'' ''gone'' = (Some (PathError ENOENT), tidy_world)"
proof -
  have a: "fst (zip_OpenReader tidy_world ''bad.zip'') = Inl ErrFormat"
    by code_simp
  have b: "fst (zip_OpenReader tidy_world ''gone.zip'') = Inl (PathError ENOENT)"
    by code_simp
  from a b extractZip_open_failure [of tidy_world "''bad.zip''" "''bad''" ErrFormat]
    extractZip_open_failure [of tidy_world "''gone.zip''" "''gone''" "PathError ENOENT"]
  show ?thesis by simp
qed

end
